theory Spec2Isabelle
  imports Main "HOL-Library.Sublist" "HOL-Library.Multiset"
begin

section \<open>Library calls used by app.py\<close>

text \<open>
  Strings are \<^typ>\<open>string\<close>. The program only compares characters, takes suffixes and
  concatenates, so nothing below depends on how a character is encoded.
\<close>

definition newline :: char where
  "newline = CHR 0x0A"

text \<open>\<^verbatim>\<open>s.endswith(suf)\<close>\<close>

definition endswith :: "string \<Rightarrow> string \<Rightarrow> bool" where
  "endswith s suf = suffix suf s"

text \<open>
  \<^verbatim>\<open>os.path.basename(p)\<close> (posixpath): the part after the last slash.
\<close>

definition basename :: "string \<Rightarrow> string" where
  "basename p = rev (takeWhile (\<lambda>c. c \<noteq> CHR ''/'') (rev p))"

text \<open>
  \<^verbatim>\<open>os.path.dirname(p)\<close> (posixpath): everything up to and including the last slash,
  with trailing slashes removed unless the head consists of slashes only.
\<close>

definition dirname :: "string \<Rightarrow> string" where
  "dirname p =
     (let head = rev (dropWhile (\<lambda>c. c \<noteq> CHR ''/'') (rev p))
      in if head \<noteq> [] \<and> head \<noteq> replicate (length head) (CHR ''/'')
         then rev (dropWhile (\<lambda>c. c = CHR ''/'') (rev head))
         else head)"

text \<open>
  The regular expression \<^verbatim>\<open>LIT$\<close> for a literal \<open>LIT\<close> matches at a position when the
  literal starts there and what follows is the end of the string or one newline that
  ends the string (Python's \<^verbatim>\<open>$\<close> without the MULTILINE flag).
\<close>

definition match_lit_eol :: "string \<Rightarrow> string \<Rightarrow> bool" where
  "match_lit_eol lit s =
     (prefix lit s \<and> (drop (length lit) s = [] \<or> drop (length lit) s = [newline]))"

text \<open>
  \<^verbatim>\<open>re.sub(LIT$, '', s)\<close>: scan from the left; a match is deleted and the scan goes on
  after it, any other character is copied. For the empty literal every match is empty and
  deleting it changes nothing.
\<close>

function re_sub_lit_eol :: "string \<Rightarrow> string \<Rightarrow> string" where
  "re_sub_lit_eol lit s =
     (if lit = [] \<or> s = [] then s
      else if match_lit_eol lit s then re_sub_lit_eol lit (drop (length lit) s)
      else hd s # re_sub_lit_eol lit (tl s))"
  by pat_completeness auto
termination
  by (relation "measure (\<lambda>(lit, s). length s)") auto

declare re_sub_lit_eol.simps [simp del]

text \<open>\<^verbatim>\<open>re.sub(c, repl, s)\<close> for a pattern that is one ordinary character.\<close>

definition re_sub_char :: "char \<Rightarrow> string \<Rightarrow> string \<Rightarrow> string" where
  "re_sub_char c repl s = concat (map (\<lambda>x. if x = c then repl else [x]) s)"

section \<open>Data model\<close>

text \<open>
  Both inventories produce dictionaries with the keys \<^verbatim>\<open>filename\<close>, \<^verbatim>\<open>prompt\<close> and
  \<^verbatim>\<open>base_filename\<close>.
\<close>

record fileinfo =
  filename :: string
  prompt :: string
  base_filename :: string

text \<open>
  What pydicom hands back for one element. \<open>NoneValue\<close> is Python's \<^verbatim>\<open>None\<close>, which the
  program tests for; \<open>Value s\<close> is any other value, \<open>s\<close> being the text an f-string
  prints for it.
\<close>

datatype elem_value = NoneValue | Value string

datatype attr = Keyword string | Tag nat nat

datatype read_result = Raises | Returns elem_value

type_synonym dataset = "attr \<Rightarrow> read_result"

datatype error = DcmReadError string | NoneSubscript

text \<open>One entry of \<^verbatim>\<open>os.walk\<close>: the directory, its subdirectories, its files.\<close>

type_synonym walk_entry = "string \<times> string list \<times> string list"

text \<open>The arguments of one call of \<^verbatim>\<open>run_nii2dcm\<close>, as the strings given to \<^verbatim>\<open>Path\<close>.\<close>

record conversion_call =
  nii_path :: string
  out_path :: string
  modality :: string
  ref_dcm_path :: string

section \<open>Key derivation and the NIfTI inventory\<close>

definition get_nii_fileinfo :: "string \<Rightarrow> fileinfo" where
  "get_nii_fileinfo fname =
     \<lparr>filename = fname,
      prompt = re_sub_lit_eol ''_ss_zmap.nii.gz'' fname,
      base_filename = basename fname\<rparr>"

definition get_nii_fileinfos :: "(string \<Rightarrow> string list) \<Rightarrow> string \<Rightarrow> fileinfo list" where
  "get_nii_fileinfos listdir inputdir =
     (let filenames = listdir inputdir;
          valid_filenames = filter (\<lambda>x. endswith x ''.nii.gz'') filenames
      in map get_nii_fileinfo valid_filenames)"

section \<open>The DICOM inventory\<close>

text \<open>The f-string rendering of a value.\<close>

definition fmt :: "elem_value \<Rightarrow> string" where
  "fmt v = (case v of NoneValue \<Rightarrow> ''None'' | Value s \<Rightarrow> s)"

definition dcm_prompt ::
  "elem_value \<Rightarrow> elem_value \<Rightarrow> elem_value \<Rightarrow> elem_value \<Rightarrow> elem_value \<Rightarrow> string" where
  "dcm_prompt protocol_name description the_date the_time series_no =
     re_sub_char (CHR '' '') ''_''
       (fmt protocol_name @ ''_'' @ fmt description @ ''_'' @ fmt the_date @ ''_''
          @ fmt the_time @ ''_'' @ fmt series_no)"

text \<open>Lines 112 to 124: the protocol name and its two fallbacks.\<close>

definition read_protocol_name :: "dataset \<Rightarrow> elem_value" where
  "read_protocol_name the_dcm =
     (let protocol_name =
            (case the_dcm (Keyword ''ProtocolName'') of
               Returns v \<Rightarrow> v
             | Raises \<Rightarrow> NoneValue)
      in if protocol_name = NoneValue
         then (case the_dcm (Keyword ''SequenceName'') of
                 Returns v \<Rightarrow> v
               | Raises \<Rightarrow> Value [])
         else protocol_name)"

text \<open>Each of the four other reads: the value, or the empty string when the read raises.\<close>

definition read_or_empty :: "dataset \<Rightarrow> attr \<Rightarrow> elem_value" where
  "read_or_empty the_dcm a = (case the_dcm a of Returns v \<Rightarrow> v | Raises \<Rightarrow> Value [])"

text \<open>The body of \<^verbatim>\<open>_get_dcm_fileinfo\<close> after the file has been read.\<close>

definition dcm_fileinfo_of :: "string \<Rightarrow> dataset \<Rightarrow> fileinfo" where
  "dcm_fileinfo_of fname the_dcm =
     (let the_base_filename = basename fname;
          dir_basename = basename (dirname fname);
          protocol_name = read_protocol_name the_dcm;
          description = read_or_empty the_dcm (Keyword ''SeriesDescription'');
          the_date = read_or_empty the_dcm (Tag 0x08 0x20);
          the_time = read_or_empty the_dcm (Tag 0x08 0x30);
          series_no = read_or_empty the_dcm (Tag 0x20 0x11)
      in \<lparr>filename = fname,
          prompt = dcm_prompt protocol_name description the_date the_time series_no,
          base_filename = dir_basename @ ''/'' @ the_base_filename\<rparr>)"

text \<open>
  \<^verbatim>\<open>dcm.dcmread\<close> is not guarded by the program: when it raises (\<open>None\<close> here) the
  exception leaves the function.
\<close>

definition get_dcm_fileinfo :: "(string \<Rightarrow> dataset option) \<Rightarrow> string \<Rightarrow> error + fileinfo" where
  "get_dcm_fileinfo dcmread fname =
     (case dcmread fname of
        None \<Rightarrow> Inl (DcmReadError fname)
      | Some the_dcm \<Rightarrow> Inr (dcm_fileinfo_of fname the_dcm))"

text \<open>The loop over \<^verbatim>\<open>os.walk\<close>, with the list built so far as accumulator.\<close>

fun dcm_fileinfos_loop ::
  "(string \<Rightarrow> dataset option) \<Rightarrow> fileinfo list \<Rightarrow> walk_entry list \<Rightarrow> error + fileinfo list" where
  "dcm_fileinfos_loop dcmread dcm_fileinfos [] = Inr dcm_fileinfos"
| "dcm_fileinfos_loop dcmread dcm_fileinfos ((root, the_dirs, the_filenames) # rest) =
     (case filter (\<lambda>x. endswith x ''.dcm'') the_filenames of
        [] \<Rightarrow> dcm_fileinfos_loop dcmread dcm_fileinfos rest
      | first # siblings \<Rightarrow>
          (case get_dcm_fileinfo dcmread (root @ ''/'' @ first) of
             Inl e \<Rightarrow> Inl e
           | Inr dcm_fileinfo \<Rightarrow>
               dcm_fileinfos_loop dcmread (dcm_fileinfos @ [dcm_fileinfo]) rest))"

definition get_dcm_fileinfos ::
  "(string \<Rightarrow> walk_entry list) \<Rightarrow> (string \<Rightarrow> dataset option) \<Rightarrow> string
     \<Rightarrow> error + fileinfo list" where
  "get_dcm_fileinfos walk dcmread inputdir = dcm_fileinfos_loop dcmread [] (walk inputdir)"

section \<open>The pair resolver\<close>

text \<open>The dictionary comprehension: records are stored one after the other.\<close>

definition dcm_fileinfo_map :: "fileinfo list \<Rightarrow> (string \<rightharpoonup> fileinfo)" where
  "dcm_fileinfo_map dcm_fileinfos =
     foldl (\<lambda>m each. m(prompt each \<mapsto> each)) Map.empty dcm_fileinfos"

definition pairs :: "fileinfo list \<Rightarrow> fileinfo list \<Rightarrow> (fileinfo \<times> fileinfo option) list" where
  "pairs nii_fileinfos dcm_fileinfos =
     map (\<lambda>each. (each, dcm_fileinfo_map dcm_fileinfos (prompt each))) nii_fileinfos"

definition invalid_pairs ::
  "fileinfo list \<Rightarrow> fileinfo list \<Rightarrow> (fileinfo \<times> fileinfo option) list" where
  "invalid_pairs nii_fileinfos dcm_fileinfos =
     filter (\<lambda>x. snd x = None) (pairs nii_fileinfos dcm_fileinfos)"

definition valid_pairs ::
  "fileinfo list \<Rightarrow> fileinfo list \<Rightarrow> (fileinfo \<times> fileinfo option) list" where
  "valid_pairs nii_fileinfos dcm_fileinfos =
     filter (\<lambda>x. snd x \<noteq> None) (pairs nii_fileinfos dcm_fileinfos)"

text \<open>\<^verbatim>\<open>_nii_dcm_pairs\<close> reports both lists and returns the valid pairs.\<close>

definition nii_dcm_pairs ::
  "fileinfo list \<Rightarrow> fileinfo list \<Rightarrow> (fileinfo \<times> fileinfo option) list" where
  "nii_dcm_pairs nii_fileinfos dcm_fileinfos = valid_pairs nii_fileinfos dcm_fileinfos"

section \<open>The conversion driver\<close>

definition get_outdir :: "string \<Rightarrow> string \<Rightarrow> string" where
  "get_outdir outputdir nii_filename =
     (let nii_basename = basename nii_filename;
          nii_prefix = re_sub_lit_eol ''.nii.gz'' nii_basename
      in outputdir @ ''/'' @ nii_prefix)"

text \<open>
  The loop of \<^verbatim>\<open>main\<close>, returning the calls of \<^verbatim>\<open>run_nii2dcm\<close> in the order they are
  made. Subscripting a missing DICOM record would raise.
\<close>

fun convert_loop ::
  "string \<Rightarrow> (fileinfo \<times> fileinfo option) list \<Rightarrow> error + conversion_call list" where
  "convert_loop outputdir_str [] = Inr []"
| "convert_loop outputdir_str ((nii_fileinfo, None) # rest) = Inl NoneSubscript"
| "convert_loop outputdir_str ((nii_fileinfo, Some dcm_fileinfo) # rest) =
     (let nii_filename = filename nii_fileinfo;
          dcm_filename = filename dcm_fileinfo;
          out_dir = get_outdir outputdir_str nii_filename;
          call = \<lparr>nii_path = nii_filename, out_path = out_dir, modality = ''MR'',
                  ref_dcm_path = dcm_filename\<rparr>
      in case convert_loop outputdir_str rest of
           Inl e \<Rightarrow> Inl e
         | Inr calls \<Rightarrow> Inr (call # calls))"

definition main ::
  "(string \<Rightarrow> string list) \<Rightarrow> (string \<Rightarrow> walk_entry list) \<Rightarrow> (string \<Rightarrow> dataset option)
     \<Rightarrow> string \<Rightarrow> string \<Rightarrow> error + conversion_call list" where
  "main listdir walk dcmread inputdir_str outputdir_str =
     (let nii_fileinfos = get_nii_fileinfos listdir inputdir_str
      in case get_dcm_fileinfos walk dcmread inputdir_str of
           Inl e \<Rightarrow> Inl e
         | Inr dcm_fileinfos \<Rightarrow>
             convert_loop outputdir_str (nii_dcm_pairs nii_fileinfos dcm_fileinfos))"

section \<open>Reference formulations used in the statements\<close>

text \<open>Removing a suffix when it is there.\<close>

definition strip_suffix :: "string \<Rightarrow> string \<Rightarrow> string" where
  "strip_suffix s suf = (if suffix suf s then take (length s - length suf) s else s)"

text \<open>\<^verbatim>\<open>sep.join(parts)\<close>\<close>

fun join :: "string \<Rightarrow> string list \<Rightarrow> string" where
  "join sep [] = []"
| "join sep [p] = p"
| "join sep (p # q # ps) = p @ sep @ join sep (q # ps)"

section \<open>The prompt mapping\<close>

lemma dcm_fileinfo_map_snoc:
  "dcm_fileinfo_map (xs @ [d]) = (dcm_fileinfo_map xs)(prompt d \<mapsto> d)"
  by (simp add: dcm_fileinfo_map_def)

lemma dcm_fileinfo_map_Nil: "dcm_fileinfo_map [] = Map.empty"
  by (simp add: dcm_fileinfo_map_def)

lemma dcm_fileinfo_map_SomeD:
  "dcm_fileinfo_map ds P = Some d \<Longrightarrow> d \<in> set ds \<and> prompt d = P"
  by (induction ds arbitrary: d rule: rev_induct)
     (auto simp: dcm_fileinfo_map_snoc dcm_fileinfo_map_Nil split: if_splits)

lemma dom_dcm_fileinfo_map: "dom (dcm_fileinfo_map ds) = prompt ` set ds"
proof (induction ds rule: rev_induct)
  case Nil
  show ?case by (simp add: dcm_fileinfo_map_Nil)
next
  case (snoc x xs)
  have "dom (dcm_fileinfo_map (xs @ [x])) = insert (prompt x) (dom (dcm_fileinfo_map xs))"
    unfolding dcm_fileinfo_map_snoc by simp
  with snoc show ?case by simp
qed

lemma dcm_fileinfo_map_last:
  "\<forall>z \<in> set zs. prompt z \<noteq> prompt d \<Longrightarrow>
     dcm_fileinfo_map (xs @ d # zs) (prompt d) = Some d"
  by (induction zs rule: rev_induct)
     (auto simp: dcm_fileinfo_map_snoc simp flip: append_Cons append_assoc)

lemma dcm_fileinfo_map_inj:
  assumes "inj_on prompt (set ds)" and "d \<in> set ds"
  shows "dcm_fileinfo_map ds (prompt d) = Some d"
proof -
  from assms(2) have "prompt d \<in> dom (dcm_fileinfo_map ds)"
    by (simp add: dom_dcm_fileinfo_map)
  then obtain d' where d': "dcm_fileinfo_map ds (prompt d) = Some d'"
    by blast
  then have "d' \<in> set ds" and "prompt d' = prompt d"
    by (simp_all add: dcm_fileinfo_map_SomeD)
  with assms have "d' = d"
    by (simp add: inj_on_def)
  with d' show ?thesis by simp
qed

lemma dcm_fileinfo_map_cong_set:
  assumes "set ds' = set ds" and "inj_on prompt (set ds)"
  shows "dcm_fileinfo_map ds' = dcm_fileinfo_map ds"
proof
  fix P
  show "dcm_fileinfo_map ds' P = dcm_fileinfo_map ds P"
  proof (cases "dcm_fileinfo_map ds P")
    case None
    then have "P \<notin> prompt ` set ds"
      by (simp add: dom_dcm_fileinfo_map [symmetric] domIff)
    with assms(1) have "P \<notin> dom (dcm_fileinfo_map ds')"
      by (simp add: dom_dcm_fileinfo_map)
    with None show ?thesis by (simp add: domIff)
  next
    case (Some d)
    then have d: "d \<in> set ds" "prompt d = P"
      by (simp_all add: dcm_fileinfo_map_SomeD)
    from assms have i: "inj_on prompt (set ds')" by simp
    from d(1) assms(1) have m: "d \<in> set ds'" by simp
    have "dcm_fileinfo_map ds' (prompt d) = Some d"
      by (rule dcm_fileinfo_map_inj [OF i m])
    with Some d show ?thesis by simp
  qed
qed

section \<open>Matched and unmatched pairs\<close>

lemma set_valid_pairs:
  "set (valid_pairs ns ds) =
     {(n, Some d) | n d. n \<in> set ns \<and> dcm_fileinfo_map ds (prompt n) = Some d}"
  by (auto simp: valid_pairs_def pairs_def)

lemma set_invalid_pairs:
  "set (invalid_pairs ns ds) =
     {(n, None) | n. n \<in> set ns \<and> dcm_fileinfo_map ds (prompt n) = None}"
  by (auto simp: invalid_pairs_def pairs_def)

lemma map_fst_valid_pairs:
  "map fst (valid_pairs ns ds) = filter (\<lambda>n. prompt n \<in> prompt ` set ds) ns"
  by (induction ns) (auto simp: valid_pairs_def pairs_def dom_dcm_fileinfo_map [symmetric])

lemma valid_pairs_eq:
  "valid_pairs ns ds =
     map (\<lambda>n. (n, dcm_fileinfo_map ds (prompt n))) 
       (filter (\<lambda>n. prompt n \<in> prompt ` set ds) ns)"
  by (induction ns) (auto simp: valid_pairs_def pairs_def dom_dcm_fileinfo_map [symmetric])

lemma mset_valid_pairs:
  "mset (valid_pairs ns ds) =
     image_mset (\<lambda>n. (n, dcm_fileinfo_map ds (prompt n)))
       (filter_mset (\<lambda>n. prompt n \<in> prompt ` set ds) (mset ns))"
  by (simp add: valid_pairs_eq)

lemma valid_pairs_append:
  "valid_pairs (ns @ ms) ds = valid_pairs ns ds @ valid_pairs ms ds"
  by (simp add: valid_pairs_def pairs_def)

lemma valid_pairs_Cons_Some:
  "dcm_fileinfo_map ds (prompt n) = Some d \<Longrightarrow>
     valid_pairs (n # ns) ds = (n, Some d) # valid_pairs ns ds"
  by (simp add: valid_pairs_def pairs_def)

text \<open>
  Claim C1. Every NIfTI record is looked up by its prompt in the DICOM prompt mapping.
  A record whose prompt is the prompt of some DICOM record is returned, paired with the
  record the mapping holds for that prompt, and is not among the records reported as
  unmatched. A record whose prompt no DICOM record has is reported as unmatched and
  occurs in no returned pair. The returned list holds the matched pairs and nothing else.
\<close>

theorem resolve_pairs_matched_unmatched:
  "(n \<in> set nii_fileinfos \<and> (\<exists>d \<in> set dcm_fileinfos. prompt d = prompt n) \<longrightarrow>
      (\<exists>d \<in> set dcm_fileinfos. prompt d = prompt n
          \<and> dcm_fileinfo_map dcm_fileinfos (prompt n) = Some d
          \<and> (n, Some d) \<in> set (nii_dcm_pairs nii_fileinfos dcm_fileinfos))
      \<and> (n, None) \<notin> set (invalid_pairs nii_fileinfos dcm_fileinfos)
      \<and> n \<notin> fst ` set (invalid_pairs nii_fileinfos dcm_fileinfos))
   \<and> (n \<in> set nii_fileinfos \<and> (\<forall>d \<in> set dcm_fileinfos. prompt d \<noteq> prompt n) \<longrightarrow>
        (n, None) \<in> set (invalid_pairs nii_fileinfos dcm_fileinfos)
        \<and> (\<forall>d. (n, d) \<notin> set (nii_dcm_pairs nii_fileinfos dcm_fileinfos)))
   \<and> nii_dcm_pairs nii_fileinfos dcm_fileinfos =
       map (\<lambda>each. (each, dcm_fileinfo_map dcm_fileinfos (prompt each)))
         (filter (\<lambda>each. prompt each \<in> prompt ` set dcm_fileinfos) nii_fileinfos)
   \<and> set (nii_dcm_pairs nii_fileinfos dcm_fileinfos) =
       {(each, Some d) | each d.
          each \<in> set nii_fileinfos \<and> d \<in> set dcm_fileinfos \<and> prompt d = prompt each
          \<and> dcm_fileinfo_map dcm_fileinfos (prompt each) = Some d}"
proof (intro conjI impI)
  assume a: "n \<in> set nii_fileinfos \<and> (\<exists>d \<in> set dcm_fileinfos. prompt d = prompt n)"
  then obtain d0 where "d0 \<in> set dcm_fileinfos" "prompt d0 = prompt n"
    by blast
  then have "prompt n \<in> prompt ` set dcm_fileinfos"
    by (metis imageI)
  then have "prompt n \<in> dom (dcm_fileinfo_map dcm_fileinfos)"
    by (simp add: dom_dcm_fileinfo_map)
  then obtain d where d: "dcm_fileinfo_map dcm_fileinfos (prompt n) = Some d"
    by blast
  then have "d \<in> set dcm_fileinfos" "prompt d = prompt n"
    by (simp_all add: dcm_fileinfo_map_SomeD)
  with a d show "\<exists>d \<in> set dcm_fileinfos. prompt d = prompt n
          \<and> dcm_fileinfo_map dcm_fileinfos (prompt n) = Some d
          \<and> (n, Some d) \<in> set (nii_dcm_pairs nii_fileinfos dcm_fileinfos)"
    by (auto simp: nii_dcm_pairs_def set_valid_pairs)
  from d show "(n, None) \<notin> set (invalid_pairs nii_fileinfos dcm_fileinfos)"
    by (simp add: set_invalid_pairs)
  from d show "n \<notin> fst ` set (invalid_pairs nii_fileinfos dcm_fileinfos)"
    by (auto simp: set_invalid_pairs)
next
  assume a: "n \<in> set nii_fileinfos \<and> (\<forall>d \<in> set dcm_fileinfos. prompt d \<noteq> prompt n)"
  then have "prompt n \<notin> prompt ` set dcm_fileinfos"
    by (metis imageE)
  then have "prompt n \<notin> dom (dcm_fileinfo_map dcm_fileinfos)"
    by (simp add: dom_dcm_fileinfo_map)
  then have none: "dcm_fileinfo_map dcm_fileinfos (prompt n) = None"
    by (simp add: domIff)
  with a show "(n, None) \<in> set (invalid_pairs nii_fileinfos dcm_fileinfos)"
    by (simp add: set_invalid_pairs)
  from none show "\<forall>d. (n, d) \<notin> set (nii_dcm_pairs nii_fileinfos dcm_fileinfos)"
    by (auto simp: nii_dcm_pairs_def set_valid_pairs)
next
  show "nii_dcm_pairs nii_fileinfos dcm_fileinfos =
       map (\<lambda>each. (each, dcm_fileinfo_map dcm_fileinfos (prompt each)))
         (filter (\<lambda>each. prompt each \<in> prompt ` set dcm_fileinfos) nii_fileinfos)"
    by (simp add: nii_dcm_pairs_def valid_pairs_eq)
next
  show "set (nii_dcm_pairs nii_fileinfos dcm_fileinfos) =
       {(each, Some d) | each d.
          each \<in> set nii_fileinfos \<and> d \<in> set dcm_fileinfos \<and> prompt d = prompt each
          \<and> dcm_fileinfo_map dcm_fileinfos (prompt each) = Some d}"
    by (auto simp: nii_dcm_pairs_def set_valid_pairs dest: dcm_fileinfo_map_SomeD)
qed

theorem resolve_pairs_matched_unmatched_witness:
  "(\<lparr>filename = ''a_ss_zmap.nii.gz'', prompt = ''a'', base_filename = ''a_ss_zmap.nii.gz''\<rparr>,
     Some \<lparr>filename = ''in/s/x.dcm'', prompt = ''a'', base_filename = ''s/x.dcm''\<rparr>)
     \<in> set (nii_dcm_pairs
          [\<lparr>filename = ''a_ss_zmap.nii.gz'', prompt = ''a'', base_filename = ''a_ss_zmap.nii.gz''\<rparr>,
           \<lparr>filename = ''b_ss_zmap.nii.gz'', prompt = ''b'', base_filename = ''b_ss_zmap.nii.gz''\<rparr>]
          [\<lparr>filename = ''in/s/x.dcm'', prompt = ''a'', base_filename = ''s/x.dcm''\<rparr>])
   \<and> (\<lparr>filename = ''b_ss_zmap.nii.gz'', prompt = ''b'', base_filename = ''b_ss_zmap.nii.gz''\<rparr>, None)
     \<in> set (invalid_pairs
          [\<lparr>filename = ''a_ss_zmap.nii.gz'', prompt = ''a'', base_filename = ''a_ss_zmap.nii.gz''\<rparr>,
           \<lparr>filename = ''b_ss_zmap.nii.gz'', prompt = ''b'', base_filename = ''b_ss_zmap.nii.gz''\<rparr>]
          [\<lparr>filename = ''in/s/x.dcm'', prompt = ''a'', base_filename = ''s/x.dcm''\<rparr>])"
  using resolve_pairs_matched_unmatched
      [of "\<lparr>filename = ''a_ss_zmap.nii.gz'', prompt = ''a'', base_filename = ''a_ss_zmap.nii.gz''\<rparr>"
          "[\<lparr>filename = ''a_ss_zmap.nii.gz'', prompt = ''a'', base_filename = ''a_ss_zmap.nii.gz''\<rparr>,
           \<lparr>filename = ''b_ss_zmap.nii.gz'', prompt = ''b'', base_filename = ''b_ss_zmap.nii.gz''\<rparr>]"
          "[\<lparr>filename = ''in/s/x.dcm'', prompt = ''a'', base_filename = ''s/x.dcm''\<rparr>]",
       THEN conjunct1]
    resolve_pairs_matched_unmatched
      [of "\<lparr>filename = ''b_ss_zmap.nii.gz'', prompt = ''b'', base_filename = ''b_ss_zmap.nii.gz''\<rparr>"
          "[\<lparr>filename = ''a_ss_zmap.nii.gz'', prompt = ''a'', base_filename = ''a_ss_zmap.nii.gz''\<rparr>,
           \<lparr>filename = ''b_ss_zmap.nii.gz'', prompt = ''b'', base_filename = ''b_ss_zmap.nii.gz''\<rparr>]"
          "[\<lparr>filename = ''in/s/x.dcm'', prompt = ''a'', base_filename = ''s/x.dcm''\<rparr>]",
       THEN conjunct2, THEN conjunct1]
  by simp

text \<open>
  Claim C2. When two DICOM records carry the same prompt and the second of them is the
  last record of the traversal with that prompt, the mapping holds the second record
  under that prompt, and every NIfTI record with that prompt is paired with it and with
  no other record.
\<close>

theorem later_dcm_wins:
  assumes "dcm_fileinfos = xs @ d1 # ys @ d2 # zs"
    and "prompt d1 = prompt d2"
    and "\<forall>z \<in> set zs. prompt z \<noteq> prompt d2"
  shows "dcm_fileinfo_map dcm_fileinfos (prompt d2) = Some d2
     \<and> dcm_fileinfo_map dcm_fileinfos (prompt d1) = Some d2
     \<and> last (filter (\<lambda>d. prompt d = prompt d2) dcm_fileinfos) = d2
     \<and> (\<forall>n \<in> set nii_fileinfos. prompt n = prompt d2 \<longrightarrow>
           (n, Some d2) \<in> set (nii_dcm_pairs nii_fileinfos dcm_fileinfos)
           \<and> (\<forall>d. (n, d) \<in> set (nii_dcm_pairs nii_fileinfos dcm_fileinfos) \<longrightarrow> d = Some d2))"
proof -
  have "dcm_fileinfos = (xs @ d1 # ys) @ d2 # zs"
    by (simp add: assms(1))
  then have m: "dcm_fileinfo_map dcm_fileinfos (prompt d2) = Some d2"
    using dcm_fileinfo_map_last [OF assms(3), of "xs @ d1 # ys"] by simp
  have "filter (\<lambda>d. prompt d = prompt d2) zs = []"
    using assms(3) by (simp add: filter_empty_conv)
  then have l: "last (filter (\<lambda>d. prompt d = prompt d2) dcm_fileinfos) = d2"
    by (simp add: assms(1))
  from m show ?thesis
    by (auto simp: l assms(2) nii_dcm_pairs_def set_valid_pairs)
qed

theorem later_dcm_wins_witness:
  "dcm_fileinfo_map
     [\<lparr>filename = ''in/s1/a.dcm'', prompt = ''P'', base_filename = ''s1/a.dcm''\<rparr>,
      \<lparr>filename = ''in/s2/b.dcm'', prompt = ''P'', base_filename = ''s2/b.dcm''\<rparr>] ''P''
     = Some \<lparr>filename = ''in/s2/b.dcm'', prompt = ''P'', base_filename = ''s2/b.dcm''\<rparr>
   \<and> (\<lparr>filename = ''P_ss_zmap.nii.gz'', prompt = ''P'', base_filename = ''P_ss_zmap.nii.gz''\<rparr>,
       Some \<lparr>filename = ''in/s2/b.dcm'', prompt = ''P'', base_filename = ''s2/b.dcm''\<rparr>)
     \<in> set (nii_dcm_pairs
          [\<lparr>filename = ''P_ss_zmap.nii.gz'', prompt = ''P'', base_filename = ''P_ss_zmap.nii.gz''\<rparr>]
          [\<lparr>filename = ''in/s1/a.dcm'', prompt = ''P'', base_filename = ''s1/a.dcm''\<rparr>,
           \<lparr>filename = ''in/s2/b.dcm'', prompt = ''P'', base_filename = ''s2/b.dcm''\<rparr>])"
  using later_dcm_wins
      [of "[\<lparr>filename = ''in/s1/a.dcm'', prompt = ''P'', base_filename = ''s1/a.dcm''\<rparr>,
            \<lparr>filename = ''in/s2/b.dcm'', prompt = ''P'', base_filename = ''s2/b.dcm''\<rparr>]"
          "[]"
          "\<lparr>filename = ''in/s1/a.dcm'', prompt = ''P'', base_filename = ''s1/a.dcm''\<rparr>"
          "[]"
          "\<lparr>filename = ''in/s2/b.dcm'', prompt = ''P'', base_filename = ''s2/b.dcm''\<rparr>"
          "[]"
          "[\<lparr>filename = ''P_ss_zmap.nii.gz'', prompt = ''P'', base_filename = ''P_ss_zmap.nii.gz''\<rparr>]"]
  by simp

text \<open>
  Claim C3, as amended. Permuting the NIfTI records never changes the matched pairs.
  Permuting the DICOM records does not change them either, provided no two different
  DICOM records share a prompt. Both the set and the multiset of pairs stay the same.
\<close>

theorem pairing_order_independent:
  assumes "mset nii_fileinfos' = mset nii_fileinfos"
    and "dcm_fileinfos' = dcm_fileinfos \<or>
         (mset dcm_fileinfos' = mset dcm_fileinfos \<and> inj_on prompt (set dcm_fileinfos))"
  shows "mset (nii_dcm_pairs nii_fileinfos' dcm_fileinfos') =
           mset (nii_dcm_pairs nii_fileinfos dcm_fileinfos)
         \<and> set (nii_dcm_pairs nii_fileinfos' dcm_fileinfos') =
           set (nii_dcm_pairs nii_fileinfos dcm_fileinfos)"
proof -
  from assms(2) have s: "set dcm_fileinfos' = set dcm_fileinfos"
    by (auto dest: mset_eq_setD)
  from assms(2) have m: "dcm_fileinfo_map dcm_fileinfos' = dcm_fileinfo_map dcm_fileinfos"
    by (auto dest: mset_eq_setD intro: dcm_fileinfo_map_cong_set)
  have "mset (nii_dcm_pairs nii_fileinfos' dcm_fileinfos') =
          mset (nii_dcm_pairs nii_fileinfos dcm_fileinfos)"
    unfolding nii_dcm_pairs_def mset_valid_pairs by (simp only: s m assms(1))
  then show ?thesis
    by (auto dest: mset_eq_setD)
qed

theorem pairing_order_independent_witness:
  "set (nii_dcm_pairs
      [\<lparr>filename = ''b_ss_zmap.nii.gz'', prompt = ''b'', base_filename = ''b_ss_zmap.nii.gz''\<rparr>,
       \<lparr>filename = ''a_ss_zmap.nii.gz'', prompt = ''a'', base_filename = ''a_ss_zmap.nii.gz''\<rparr>]
      [\<lparr>filename = ''in/s2/y.dcm'', prompt = ''b'', base_filename = ''s2/y.dcm''\<rparr>,
       \<lparr>filename = ''in/s1/x.dcm'', prompt = ''a'', base_filename = ''s1/x.dcm''\<rparr>])
   = set (nii_dcm_pairs
      [\<lparr>filename = ''a_ss_zmap.nii.gz'', prompt = ''a'', base_filename = ''a_ss_zmap.nii.gz''\<rparr>,
       \<lparr>filename = ''b_ss_zmap.nii.gz'', prompt = ''b'', base_filename = ''b_ss_zmap.nii.gz''\<rparr>]
      [\<lparr>filename = ''in/s1/x.dcm'', prompt = ''a'', base_filename = ''s1/x.dcm''\<rparr>,
       \<lparr>filename = ''in/s2/y.dcm'', prompt = ''b'', base_filename = ''s2/y.dcm''\<rparr>])"
  using pairing_order_independent
      [of "[\<lparr>filename = ''b_ss_zmap.nii.gz'', prompt = ''b'', base_filename = ''b_ss_zmap.nii.gz''\<rparr>,
            \<lparr>filename = ''a_ss_zmap.nii.gz'', prompt = ''a'', base_filename = ''a_ss_zmap.nii.gz''\<rparr>]"
          "[\<lparr>filename = ''a_ss_zmap.nii.gz'', prompt = ''a'', base_filename = ''a_ss_zmap.nii.gz''\<rparr>,
            \<lparr>filename = ''b_ss_zmap.nii.gz'', prompt = ''b'', base_filename = ''b_ss_zmap.nii.gz''\<rparr>]"
          "[\<lparr>filename = ''in/s2/y.dcm'', prompt = ''b'', base_filename = ''s2/y.dcm''\<rparr>,
            \<lparr>filename = ''in/s1/x.dcm'', prompt = ''a'', base_filename = ''s1/x.dcm''\<rparr>]"
          "[\<lparr>filename = ''in/s1/x.dcm'', prompt = ''a'', base_filename = ''s1/x.dcm''\<rparr>,
            \<lparr>filename = ''in/s2/y.dcm'', prompt = ''b'', base_filename = ''s2/y.dcm''\<rparr>]"]
  by (simp add: add_mset_commute)

text \<open>
  With two different DICOM records under one prompt the order of the DICOM records
  decides which of them is paired: swapping them changes the set of matched pairs.
\<close>

theorem pairing_order_dependent:
  "mset [\<lparr>filename = ''s2/b.dcm'', prompt = ''P'', base_filename = ''s2/b.dcm''\<rparr>,
         \<lparr>filename = ''s1/a.dcm'', prompt = ''P'', base_filename = ''s1/a.dcm''\<rparr>]
   = mset [\<lparr>filename = ''s1/a.dcm'', prompt = ''P'', base_filename = ''s1/a.dcm''\<rparr>,
           \<lparr>filename = ''s2/b.dcm'', prompt = ''P'', base_filename = ''s2/b.dcm''\<rparr>]
   \<and> set (nii_dcm_pairs
          [\<lparr>filename = ''P_ss_zmap.nii.gz'', prompt = ''P'', base_filename = ''P_ss_zmap.nii.gz''\<rparr>]
          [\<lparr>filename = ''s2/b.dcm'', prompt = ''P'', base_filename = ''s2/b.dcm''\<rparr>,
           \<lparr>filename = ''s1/a.dcm'', prompt = ''P'', base_filename = ''s1/a.dcm''\<rparr>])
     \<noteq> set (nii_dcm_pairs
          [\<lparr>filename = ''P_ss_zmap.nii.gz'', prompt = ''P'', base_filename = ''P_ss_zmap.nii.gz''\<rparr>]
          [\<lparr>filename = ''s1/a.dcm'', prompt = ''P'', base_filename = ''s1/a.dcm''\<rparr>,
           \<lparr>filename = ''s2/b.dcm'', prompt = ''P'', base_filename = ''s2/b.dcm''\<rparr>])"
  by (simp add: nii_dcm_pairs_def valid_pairs_def pairs_def dcm_fileinfo_map_def)

text \<open>
  Claim C10. Two NIfTI records with the same prompt, found in the mapping, are both
  returned, each with the same DICOM record, at positions that follow the order of the
  input; the NIfTI records of the returned pairs are the input sequence with the
  unmatched records left out.
\<close>

theorem resolver_keeps_duplicates_in_order:
  assumes "nii_fileinfos = as @ n1 # bs @ n2 # cs"
    and "prompt n1 = prompt n2"
    and "dcm_fileinfo_map dcm_fileinfos (prompt n1) = Some d"
  shows "nii_dcm_pairs nii_fileinfos dcm_fileinfos =
           nii_dcm_pairs as dcm_fileinfos @ (n1, Some d)
             # nii_dcm_pairs bs dcm_fileinfos @ (n2, Some d)
             # nii_dcm_pairs cs dcm_fileinfos
     \<and> map fst (nii_dcm_pairs nii_fileinfos dcm_fileinfos) =
           filter (\<lambda>each. prompt each \<in> prompt ` set dcm_fileinfos) nii_fileinfos"
proof -
  from assms(2,3) have "dcm_fileinfo_map dcm_fileinfos (prompt n2) = Some d"
    by simp
  with assms(3) have "nii_dcm_pairs nii_fileinfos dcm_fileinfos =
           nii_dcm_pairs as dcm_fileinfos @ (n1, Some d)
             # nii_dcm_pairs bs dcm_fileinfos @ (n2, Some d)
             # nii_dcm_pairs cs dcm_fileinfos"
    by (simp add: assms(1) nii_dcm_pairs_def valid_pairs_append valid_pairs_Cons_Some)
  moreover have "map fst (nii_dcm_pairs nii_fileinfos dcm_fileinfos) =
           filter (\<lambda>each. prompt each \<in> prompt ` set dcm_fileinfos) nii_fileinfos"
    unfolding nii_dcm_pairs_def by (rule map_fst_valid_pairs)
  ultimately show ?thesis
    by (rule conjI)
qed

theorem resolver_keeps_duplicates_in_order_witness:
  "nii_dcm_pairs
     [\<lparr>filename = ''P_ss_zmap.nii.gz'', prompt = ''P'', base_filename = ''P_ss_zmap.nii.gz''\<rparr>,
      \<lparr>filename = ''P'', prompt = ''P'', base_filename = ''P''\<rparr>]
     [\<lparr>filename = ''in/s1/a.dcm'', prompt = ''P'', base_filename = ''s1/a.dcm''\<rparr>]
   = [(\<lparr>filename = ''P_ss_zmap.nii.gz'', prompt = ''P'', base_filename = ''P_ss_zmap.nii.gz''\<rparr>,
       Some \<lparr>filename = ''in/s1/a.dcm'', prompt = ''P'', base_filename = ''s1/a.dcm''\<rparr>),
      (\<lparr>filename = ''P'', prompt = ''P'', base_filename = ''P''\<rparr>,
       Some \<lparr>filename = ''in/s1/a.dcm'', prompt = ''P'', base_filename = ''s1/a.dcm''\<rparr>)]"
  using resolver_keeps_duplicates_in_order
      [of "[\<lparr>filename = ''P_ss_zmap.nii.gz'', prompt = ''P'', base_filename = ''P_ss_zmap.nii.gz''\<rparr>,
            \<lparr>filename = ''P'', prompt = ''P'', base_filename = ''P''\<rparr>]"
          "[]"
          "\<lparr>filename = ''P_ss_zmap.nii.gz'', prompt = ''P'', base_filename = ''P_ss_zmap.nii.gz''\<rparr>"
          "[]"
          "\<lparr>filename = ''P'', prompt = ''P'', base_filename = ''P''\<rparr>"
          "[]"
          "[\<lparr>filename = ''in/s1/a.dcm'', prompt = ''P'', base_filename = ''s1/a.dcm''\<rparr>]"
          "\<lparr>filename = ''in/s1/a.dcm'', prompt = ''P'', base_filename = ''s1/a.dcm''\<rparr>"]
  by (simp add: dcm_fileinfo_map_def nii_dcm_pairs_def valid_pairs_def pairs_def)

section \<open>Regular expression substitution\<close>

lemma re_sub_lit_eol_Nil: "re_sub_lit_eol lit [] = []"
  by (simp add: re_sub_lit_eol.simps)

lemma match_lit_eol_iff: "match_lit_eol lit s \<longleftrightarrow> s = lit \<or> s = lit @ [newline]"
proof
  assume "match_lit_eol lit s"
  then have p: "prefix lit s"
    and d: "drop (length lit) s = [] \<or> drop (length lit) s = [newline]"
    by (simp_all add: match_lit_eol_def)
  from p obtain r where r: "s = lit @ r"
    by (auto simp: prefix_def)
  with d show "s = lit \<or> s = lit @ [newline]"
    by auto
next
  assume "s = lit \<or> s = lit @ [newline]"
  then show "match_lit_eol lit s"
    by (auto simp: match_lit_eol_def)
qed

lemma re_sub_lit_eol_newline:
  assumes "lit \<noteq> []" and "newline \<notin> set lit"
  shows "re_sub_lit_eol lit [newline] = [newline]"
proof -
  from assms have "\<not> match_lit_eol lit [newline]"
    by (auto simp: match_lit_eol_iff)
  with assms(1) show ?thesis
    by (simp add: re_sub_lit_eol.simps [of lit "[newline]"] re_sub_lit_eol_Nil)
qed

lemma re_sub_lit_eol_Cons:
  assumes "lit \<noteq> []" and "newline \<notin> set lit"
  shows "re_sub_lit_eol lit (c # cs) =
           (if c # cs = lit then []
            else if c # cs = lit @ [newline] then [newline]
            else c # re_sub_lit_eol lit cs)"
proof -
  have "re_sub_lit_eol lit lit = []"
    using assms(1)
    by (simp add: re_sub_lit_eol.simps [of lit lit] match_lit_eol_iff re_sub_lit_eol_Nil)
  moreover have "re_sub_lit_eol lit (lit @ [newline]) = [newline]"
    using assms
    by (simp add: re_sub_lit_eol.simps [of lit "lit @ [newline]"] match_lit_eol_iff
          re_sub_lit_eol_newline)
  moreover have "\<not> match_lit_eol lit (c # cs) \<Longrightarrow>
      re_sub_lit_eol lit (c # cs) = c # re_sub_lit_eol lit cs"
    using assms(1) by (simp add: re_sub_lit_eol.simps [of lit "c # cs"])
  ultimately show ?thesis
    by (auto simp: match_lit_eol_iff)
qed

lemma suffix_snoc_newline:
  assumes "lit \<noteq> []" and "newline \<notin> set lit"
  shows "\<not> suffix lit (xs @ [newline])"
proof
  assume "suffix lit (xs @ [newline])"
  then obtain zs where "xs @ [newline] = zs @ lit"
    by (auto simp: suffix_def)
  with assms(1) have "last lit = newline"
    by (metis last_appendR last_snoc)
  with assms show False
    by (metis last_in_set)
qed

lemma re_sub_lit_eol_char:
  assumes "lit \<noteq> []" and "newline \<notin> set lit"
  shows "re_sub_lit_eol lit s =
           (if suffix lit s then take (length s - length lit) s
            else if suffix (lit @ [newline]) s
              then take (length s - length lit - 1) s @ [newline]
            else s)"
proof (induction s)
  case Nil
  with assms show ?case by (simp add: re_sub_lit_eol_Nil)
next
  case (Cons c cs)
  note step = re_sub_lit_eol_Cons [OF assms, of c cs]
  show ?case
  proof (cases "c # cs = lit")
    case True
    have a: "re_sub_lit_eol lit (c # cs) = []"
      by (rule trans [OF step if_P [OF True]])
    have b: "suffix lit (c # cs)"
      unfolding True by (rule suffix_order.refl)
    have c: "take (length (c # cs) - length lit) (c # cs) = []"
      unfolding True by simp
    show ?thesis
      by (simp only: a b c if_True)
  next
    case ne: False
    show ?thesis
    proof (cases "c # cs = lit @ [newline]")
      case True
      have a: "re_sub_lit_eol lit (c # cs) = [newline]"
        by (rule trans [OF step trans [OF if_not_P [OF ne] if_P [OF True]]])
      have b: "\<not> suffix lit (c # cs)"
        unfolding True using assms by (rule suffix_snoc_newline)
      have c: "suffix (lit @ [newline]) (c # cs)"
        unfolding True by (rule suffix_order.refl)
      have d: "take (length (c # cs) - length lit - 1) (c # cs) = []"
        unfolding True by simp
      show ?thesis
        by (simp only: a b c d if_True if_False append_Nil)
    next
      case False
      have a: "re_sub_lit_eol lit (c # cs) = c # re_sub_lit_eol lit cs"
        by (rule trans [OF step trans [OF if_not_P [OF ne] if_not_P [OF False]]])
      have s1: "suffix lit (c # cs) \<longleftrightarrow> suffix lit cs"
        using ne by (auto simp: suffix_Cons)
      have s2: "suffix (lit @ [newline]) (c # cs) \<longleftrightarrow> suffix (lit @ [newline]) cs"
        using False by (auto simp: suffix_Cons)
      show ?thesis
      proof (cases "suffix lit cs")
        case True
        then have "length lit \<le> length cs"
          by (rule suffix_length_le)
        then have "take (length (c # cs) - length lit) (c # cs) =
            c # take (length cs - length lit) cs"
          by (simp add: Suc_diff_le)
        with True show ?thesis
          by (simp only: a s1 Cons.IH if_True)
      next
        case nl: False
        show ?thesis
        proof (cases "suffix (lit @ [newline]) cs")
          case True
          then have "length (lit @ [newline]) \<le> length cs"
            by (rule suffix_length_le)
          then have "take (length (c # cs) - length lit - 1) (c # cs) =
              c # take (length cs - length lit - 1) cs"
            by (auto simp: take_Cons')
          with True nl show ?thesis
            by (simp only: a s1 s2 Cons.IH if_True if_False append_Cons)
        next
          case False
          with nl show ?thesis
            by (simp only: a s1 s2 Cons.IH if_False)
        qed
      qed
    qed
  qed
qed

lemma re_sub_char_single:
  "re_sub_char c [r] s = map (\<lambda>x. if x = c then r else x) s"
  by (induction s) (simp_all add: re_sub_char_def)

section \<open>Key derivation\<close>

text \<open>
  Claim C5. The inventory hands \<^verbatim>\<open>_get_nii_fileinfo\<close> only names that end in
  \<open>.nii.gz\<close>. A filename that ends in \<open>_ss_zmap.nii.gz\<close> is its prompt followed by that
  suffix. A filename handed over by the inventory that does not end in that suffix is its
  own prompt. Both hold of every record of the inventory.
\<close>

theorem nii_prompt_strips_suffix:
  "(endswith f ''_ss_zmap.nii.gz'' \<longrightarrow>
      f = prompt (get_nii_fileinfo f) @ ''_ss_zmap.nii.gz'')
   \<and> (endswith f ''.nii.gz'' \<and> \<not> endswith f ''_ss_zmap.nii.gz'' \<longrightarrow>
      prompt (get_nii_fileinfo f) = f)
   \<and> (\<forall>n \<in> set (get_nii_fileinfos listdir inputdir).
        (endswith (filename n) ''_ss_zmap.nii.gz'' \<longrightarrow>
           filename n = prompt n @ ''_ss_zmap.nii.gz'')
        \<and> (\<not> endswith (filename n) ''_ss_zmap.nii.gz'' \<longrightarrow> prompt n = filename n))"
proof -
  have lit: "''_ss_zmap.nii.gz'' \<noteq> []" "newline \<notin> set ''_ss_zmap.nii.gz''"
    by (simp_all add: newline_def)
  have ext: "''.nii.gz'' \<noteq> []" "newline \<notin> set ''.nii.gz''"
    by (simp_all add: newline_def)
  have p: "prompt (get_nii_fileinfo g) = re_sub_lit_eol ''_ss_zmap.nii.gz'' g" for g
    by (simp add: get_nii_fileinfo_def)
  have one: "g = prompt (get_nii_fileinfo g) @ ''_ss_zmap.nii.gz''"
    if "suffix ''_ss_zmap.nii.gz'' g" for g
  proof -
    from that obtain zs where zs: "g = zs @ ''_ss_zmap.nii.gz''"
      by (auto simp: suffix_def)
    from that have "prompt (get_nii_fileinfo g) = take (length g - length ''_ss_zmap.nii.gz'') g"
      unfolding p re_sub_lit_eol_char [OF lit, of g] by (simp only: if_True)
    also have "\<dots> = zs"
      unfolding zs by simp
    finally show ?thesis
      using zs by simp
  qed
  have no_newline: "\<not> suffix (''_ss_zmap.nii.gz'' @ [newline]) g"
    if "suffix ''.nii.gz'' g" for g
  proof
    assume "suffix (''_ss_zmap.nii.gz'' @ [newline]) g"
    then obtain zs where "g = (zs @ ''_ss_zmap.nii.gz'') @ [newline]"
      by (auto simp: suffix_def)
    with that have "suffix ''.nii.gz'' ((zs @ ''_ss_zmap.nii.gz'') @ [newline])"
      by (simp only:)
    with suffix_snoc_newline [OF ext] show False
      by blast
  qed
  have two: "prompt (get_nii_fileinfo g) = g"
    if "suffix ''.nii.gz'' g" "\<not> suffix ''_ss_zmap.nii.gz'' g" for g
    using that(2) no_newline [OF that(1)]
    unfolding p re_sub_lit_eol_char [OF lit, of g] by (simp only: if_False)
  have "(endswith (filename n) ''_ss_zmap.nii.gz'' \<longrightarrow>
           filename n = prompt n @ ''_ss_zmap.nii.gz'')
        \<and> (\<not> endswith (filename n) ''_ss_zmap.nii.gz'' \<longrightarrow> prompt n = filename n)"
    if "n \<in> set (get_nii_fileinfos listdir inputdir)" for n
  proof -
    from that obtain g where g: "n = get_nii_fileinfo g" "suffix ''.nii.gz'' g"
      by (auto simp: get_nii_fileinfos_def endswith_def)
    have "filename n = g"
      by (simp add: g(1) get_nii_fileinfo_def)
    with one [of g] two [OF g(2)] show ?thesis
      by (simp add: endswith_def g(1))
  qed
  with one two show ?thesis
    unfolding endswith_def by blast
qed

theorem nii_prompt_strips_suffix_witness:
  "prompt (get_nii_fileinfo ''brainA_ss_zmap.nii.gz'') = ''brainA''
   \<and> prompt (get_nii_fileinfo ''brainB.nii.gz'') = ''brainB.nii.gz''
   \<and> map prompt
       (get_nii_fileinfos (\<lambda>d. [''brainA_ss_zmap.nii.gz'', ''seriesX'', ''brainB.nii.gz''])
          ''in'')
     = [''brainA'', ''brainB.nii.gz'']"
proof -
  let ?listdir = "\<lambda>d::string. [''brainA_ss_zmap.nii.gz'', ''seriesX'', ''brainB.nii.gz'']"
  have a: "prompt (get_nii_fileinfo ''brainA_ss_zmap.nii.gz'') = ''brainA''"
    using nii_prompt_strips_suffix [of "''brainA_ss_zmap.nii.gz''", THEN conjunct1]
    by (simp add: endswith_def suffix_to_prefix)
  have b: "prompt (get_nii_fileinfo ''brainB.nii.gz'') = ''brainB.nii.gz''"
    using nii_prompt_strips_suffix [of "''brainB.nii.gz''", THEN conjunct2, THEN conjunct1]
    by (simp add: endswith_def suffix_to_prefix)
  have l: "get_nii_fileinfos ?listdir ''in'' =
      [get_nii_fileinfo ''brainA_ss_zmap.nii.gz'', get_nii_fileinfo ''brainB.nii.gz'']"
    by (simp add: get_nii_fileinfos_def endswith_def suffix_to_prefix)
  have fa: "filename (get_nii_fileinfo ''brainA_ss_zmap.nii.gz'') = ''brainA_ss_zmap.nii.gz''"
    and fb: "filename (get_nii_fileinfo ''brainB.nii.gz'') = ''brainB.nii.gz''"
    by (simp_all add: get_nii_fileinfo_def)
  from nii_prompt_strips_suffix
      [where listdir = ?listdir and inputdir = "''in''", THEN conjunct2, THEN conjunct2]
  have "map prompt (get_nii_fileinfos ?listdir ''in'') = [''brainA'', ''brainB.nii.gz'']"
    unfolding l by (simp add: fa fb endswith_def suffix_to_prefix)
  with a b show ?thesis
    by (intro conjI)
qed

text \<open>
  Claim C6. The DICOM prompt is the five fields, in the order protocol name, series
  description, study date, study time, series number, joined with underscores, with every
  space replaced by an underscore and every other character kept in place; no space is
  left and the length is that of the joined string.
\<close>

theorem dcm_prompt_join_replace:
  "dcm_prompt protocol_name description the_date the_time series_no =
     map (\<lambda>x. if x = CHR '' '' then CHR ''_'' else x)
       (join ''_'' [fmt protocol_name, fmt description, fmt the_date, fmt the_time,
          fmt series_no])
   \<and> dcm_prompt (Value p) (Value d) (Value dt) (Value tm) (Value sn) =
     map (\<lambda>x. if x = CHR '' '' then CHR ''_'' else x) (join ''_'' [p, d, dt, tm, sn])
   \<and> CHR '' '' \<notin> set (dcm_prompt protocol_name description the_date the_time series_no)
   \<and> length (dcm_prompt protocol_name description the_date the_time series_no) =
       length (join ''_'' [fmt protocol_name, fmt description, fmt the_date, fmt the_time,
          fmt series_no])"
  by (auto simp: dcm_prompt_def re_sub_char_single fmt_def)

text \<open>
  Claim C4. Once the file has been read, a record with a prompt is produced whatever the
  six element reads do. The first segment is the protocol name, or else what the read of
  the sequence name gives, or else empty; each of the other four segments is the value
  read or, when the read fails, empty.
\<close>

theorem dcm_metadata_fallbacks:
  assumes "dcmread fname = Some the_dcm"
  shows "get_dcm_fileinfo dcmread fname =
     Inr \<lparr>filename = fname,
          prompt = map (\<lambda>x. if x = CHR '' '' then CHR ''_'' else x)
            (join ''_''
              [case the_dcm (Keyword ''ProtocolName'') of
                 Returns (Value s) \<Rightarrow> s
               | _ \<Rightarrow>
                   (case the_dcm (Keyword ''SequenceName'') of
                      Returns v \<Rightarrow> fmt v
                    | Raises \<Rightarrow> []),
               case the_dcm (Keyword ''SeriesDescription'') of
                 Returns v \<Rightarrow> fmt v | Raises \<Rightarrow> [],
               case the_dcm (Tag 0x08 0x20) of Returns v \<Rightarrow> fmt v | Raises \<Rightarrow> [],
               case the_dcm (Tag 0x08 0x30) of Returns v \<Rightarrow> fmt v | Raises \<Rightarrow> [],
               case the_dcm (Tag 0x20 0x11) of Returns v \<Rightarrow> fmt v | Raises \<Rightarrow> []]),
          base_filename = basename (dirname fname) @ ''/'' @ basename fname\<rparr>"
proof -
  have p: "fmt (read_protocol_name the_dcm) =
      (case the_dcm (Keyword ''ProtocolName'') of
         Returns (Value s) \<Rightarrow> s
       | _ \<Rightarrow>
           (case the_dcm (Keyword ''SequenceName'') of
              Returns v \<Rightarrow> fmt v
            | Raises \<Rightarrow> []))"
    by (simp add: read_protocol_name_def fmt_def split: read_result.splits elem_value.splits)
  have r: "fmt (read_or_empty the_dcm a) =
      (case the_dcm a of Returns v \<Rightarrow> fmt v | Raises \<Rightarrow> [])" for a
    by (simp add: read_or_empty_def fmt_def split: read_result.splits)
  have "dcm_prompt (read_protocol_name the_dcm)
          (read_or_empty the_dcm (Keyword ''SeriesDescription''))
          (read_or_empty the_dcm (Tag 0x08 0x20))
          (read_or_empty the_dcm (Tag 0x08 0x30))
          (read_or_empty the_dcm (Tag 0x20 0x11)) =
        map (\<lambda>x. if x = CHR '' '' then CHR ''_'' else x)
          (join ''_''
            [fmt (read_protocol_name the_dcm),
             fmt (read_or_empty the_dcm (Keyword ''SeriesDescription'')),
             fmt (read_or_empty the_dcm (Tag 0x08 0x20)),
             fmt (read_or_empty the_dcm (Tag 0x08 0x30)),
             fmt (read_or_empty the_dcm (Tag 0x20 0x11))])"
    by (simp add: dcm_prompt_def re_sub_char_single)
  then show ?thesis
    unfolding p r by (simp add: get_dcm_fileinfo_def dcm_fileinfo_of_def assms)
qed

theorem dcm_metadata_fallbacks_witness:
  "get_dcm_fileinfo
     (\<lambda>p. Some (\<lambda>a. if a = Keyword ''SequenceName'' then Returns (Value ''ep2d diff'')
                     else if a = Tag 0x20 0x11 then Returns (Value ''7'')
                     else Raises))
     ''in/seriesX/scan1.dcm'' =
   Inr \<lparr>filename = ''in/seriesX/scan1.dcm'', prompt = ''ep2d_diff____7'',
        base_filename = ''seriesX/scan1.dcm''\<rparr>"
  using dcm_metadata_fallbacks
      [of "\<lambda>p. Some (\<lambda>a. if a = Keyword ''SequenceName'' then Returns (Value ''ep2d diff'')
                     else if a = Tag 0x20 0x11 then Returns (Value ''7'')
                     else Raises)"
          "''in/seriesX/scan1.dcm''"
          "\<lambda>a. if a = Keyword ''SequenceName'' then Returns (Value ''ep2d diff'')
                     else if a = Tag 0x20 0x11 then Returns (Value ''7'')
                     else Raises"]
  by (simp add: basename_def dirname_def fmt_def)

section \<open>The walk over the directories\<close>

lemma dcm_fileinfos_loop_acc:
  "dcm_fileinfos_loop dcmread acc entries =
     (case dcm_fileinfos_loop dcmread [] entries of
        Inl e \<Rightarrow> Inl e
      | Inr found \<Rightarrow> Inr (acc @ found))"
proof (induction entries arbitrary: acc)
  case Nil
  show ?case by simp
next
  case (Cons entry entries)
  note IH = Cons.IH
  obtain root the_dirs the_filenames where e: "entry = (root, the_dirs, the_filenames)"
    by (cases entry)
  show ?case
  proof (cases "filter (\<lambda>x. endswith x ''.dcm'') the_filenames")
    case Nil
    then show ?thesis
      unfolding e using IH [of acc] by simp
  next
    case (Cons first siblings)
    show ?thesis
    proof (cases "get_dcm_fileinfo dcmread (root @ ''/'' @ first)")
      case (Inl err)
      with Cons show ?thesis
        unfolding e by simp
    next
      case (Inr dcm_fileinfo)
      have "dcm_fileinfos_loop dcmread (acc @ [dcm_fileinfo]) entries =
          (case dcm_fileinfos_loop dcmread [] entries of
             Inl e \<Rightarrow> Inl e
           | Inr found \<Rightarrow> Inr (acc @ dcm_fileinfo # found))"
        using IH [of "acc @ [dcm_fileinfo]"] by (simp split: sum.splits)
      moreover have "dcm_fileinfos_loop dcmread [dcm_fileinfo] entries =
          (case dcm_fileinfos_loop dcmread [] entries of
             Inl e \<Rightarrow> Inl e
           | Inr found \<Rightarrow> Inr (dcm_fileinfo # found))"
        using IH [of "[dcm_fileinfo]"] by (simp split: sum.splits)
      ultimately show ?thesis
        unfolding e using Cons Inr by (simp split: sum.splits)
    qed
  qed
qed

lemma dcm_fileinfos_loop_append:
  "dcm_fileinfos_loop dcmread acc (es1 @ es2) =
     (case dcm_fileinfos_loop dcmread acc es1 of
        Inl e \<Rightarrow> Inl e
      | Inr found \<Rightarrow> dcm_fileinfos_loop dcmread found es2)"
proof (induction es1 arbitrary: acc)
  case Nil
  show ?case by simp
next
  case (Cons entry entries)
  obtain root the_dirs the_filenames where e: "entry = (root, the_dirs, the_filenames)"
    by (cases entry)
  show ?case
    unfolding e by (simp add: Cons.IH split: list.splits sum.splits)
qed

lemma dcm_fileinfos_loop_readable:
  assumes "\<forall>(root, the_dirs, the_filenames) \<in> set entries. \<forall>first siblings.
      filter (\<lambda>x. endswith x ''.dcm'') the_filenames = first # siblings \<longrightarrow>
      dcmread (root @ ''/'' @ first) \<noteq> None"
  shows "\<exists>found. dcm_fileinfos_loop dcmread acc entries = Inr found"
  using assms
proof (induction entries arbitrary: acc)
  case Nil
  show ?case by simp
next
  case (Cons entry entries)
  obtain root the_dirs the_filenames where e: "entry = (root, the_dirs, the_filenames)"
    by (cases entry)
  from Cons.prems have rest: "\<forall>(root, the_dirs, the_filenames) \<in> set entries.
      \<forall>first siblings.
      filter (\<lambda>x. endswith x ''.dcm'') the_filenames = first # siblings \<longrightarrow>
      dcmread (root @ ''/'' @ first) \<noteq> None"
    by simp
  from Cons.prems have this_one: "\<forall>first siblings.
      filter (\<lambda>x. endswith x ''.dcm'') the_filenames = first # siblings \<longrightarrow>
      dcmread (root @ ''/'' @ first) \<noteq> None"
    by (simp add: e)
  show ?case
  proof (cases "filter (\<lambda>x. endswith x ''.dcm'') the_filenames")
    case Nil
    with Cons.IH [OF rest] show ?thesis
      by (simp add: e)
  next
    case (Cons first siblings)
    with this_one obtain the_dcm where "dcmread (root @ ''/'' @ first) = Some the_dcm"
      by blast
    with Cons Cons.IH [OF rest] show ?thesis
      by (simp add: e get_dcm_fileinfo_def)
  qed
qed

lemma filename_dcm_fileinfo_of: "filename (dcm_fileinfo_of fname the_dcm) = fname"
  by (simp add: dcm_fileinfo_of_def)

lemma dcm_fileinfos_loop_filenames:
  assumes "dcm_fileinfos_loop dcmread acc entries = Inr found" and "d \<in> set found"
  shows "d \<in> set acc \<or>
     (\<exists>(root, the_dirs, the_filenames) \<in> set entries. \<exists>first siblings.
        filter (\<lambda>x. endswith x ''.dcm'') the_filenames = first # siblings
        \<and> filename d = root @ ''/'' @ first)"
  using assms
proof (induction entries arbitrary: acc)
  case Nil
  then show ?case by simp
next
  case (Cons entry entries)
  note IH = Cons.IH
  note prems = Cons.prems
  obtain root the_dirs the_filenames where e: "entry = (root, the_dirs, the_filenames)"
    by (cases entry)
  show ?case
  proof (cases "filter (\<lambda>x. endswith x ''.dcm'') the_filenames")
    case Nil
    with prems have "dcm_fileinfos_loop dcmread acc entries = Inr found"
      by (simp add: e)
    from IH [OF this prems(2)] show ?thesis
      by auto
  next
    case (Cons first siblings)
    show ?thesis
    proof (cases "dcmread (root @ ''/'' @ first)")
      case None
      with Cons prems(1) show ?thesis
        by (simp add: e get_dcm_fileinfo_def)
    next
      case (Some the_dcm)
      with Cons prems(1) have "dcm_fileinfos_loop dcmread
          (acc @ [dcm_fileinfo_of (root @ ''/'' @ first) the_dcm]) entries = Inr found"
        by (simp add: e get_dcm_fileinfo_def)
      from IH [OF this prems(2)] have "d \<in> set acc
          \<or> d = dcm_fileinfo_of (root @ ''/'' @ first) the_dcm
          \<or> (\<exists>(root, the_dirs, the_filenames) \<in> set entries. \<exists>first siblings.
               filter (\<lambda>x. endswith x ''.dcm'') the_filenames = first # siblings
               \<and> filename d = root @ ''/'' @ first)"
        by auto
      then show ?thesis
      proof (elim disjE)
        assume "d = dcm_fileinfo_of (root @ ''/'' @ first) the_dcm"
        then have "filename d = root @ ''/'' @ first"
          by (simp add: filename_dcm_fileinfo_of)
        with Cons show ?thesis
          unfolding e by fastforce
      qed auto
    qed
  qed
qed

text \<open>
  Claim C7, as amended. Provided the representative file of every directory of the walk
  can be read, the walk returns, and its result is the records of the directories before, then the
  contribution of the directory at hand, then the records of the directories after. That
  contribution is empty when the directory has no entry ending in \<open>.dcm\<close>, and
  otherwise is the one record read from the first such entry under the directory's root;
  the entries after the first play no part.
\<close>

theorem dcm_walk_one_record_per_directory:
  assumes readable: "\<forall>(root, the_dirs, the_filenames) \<in> set (walk inputdir).
      \<forall>first siblings.
      filter (\<lambda>x. endswith x ''.dcm'') the_filenames = first # siblings \<longrightarrow>
      dcmread (root @ ''/'' @ first) \<noteq> None"
    and visited: "walk inputdir = before @ (root, the_dirs, the_filenames) # after"
  shows "\<exists>earlier contribution later.
      get_dcm_fileinfos walk dcmread inputdir = Inr (earlier @ contribution @ later)
      \<and> dcm_fileinfos_loop dcmread [] before = Inr earlier
      \<and> dcm_fileinfos_loop dcmread [] after = Inr later
      \<and> (filter (\<lambda>x. endswith x ''.dcm'') the_filenames = [] \<longrightarrow> contribution = [])
      \<and> (\<forall>first siblings.
            filter (\<lambda>x. endswith x ''.dcm'') the_filenames = first # siblings \<longrightarrow>
            (\<exists>the_dcm. dcmread (root @ ''/'' @ first) = Some the_dcm
               \<and> contribution = [dcm_fileinfo_of (root @ ''/'' @ first) the_dcm]))"
proof -
  have "\<forall>(root, the_dirs, the_filenames) \<in> set before. \<forall>first siblings.
      filter (\<lambda>x. endswith x ''.dcm'') the_filenames = first # siblings \<longrightarrow>
      dcmread (root @ ''/'' @ first) \<noteq> None"
    using readable unfolding visited by simp
  then obtain earlier where earlier: "dcm_fileinfos_loop dcmread [] before = Inr earlier"
    using dcm_fileinfos_loop_readable by blast
  have "\<forall>(root, the_dirs, the_filenames) \<in> set after. \<forall>first siblings.
      filter (\<lambda>x. endswith x ''.dcm'') the_filenames = first # siblings \<longrightarrow>
      dcmread (root @ ''/'' @ first) \<noteq> None"
    using readable unfolding visited by simp
  then obtain later where later: "dcm_fileinfos_loop dcmread [] after = Inr later"
    using dcm_fileinfos_loop_readable by blast
  have rest: "dcm_fileinfos_loop dcmread acc after = Inr (acc @ later)" for acc
    using dcm_fileinfos_loop_acc [of dcmread acc after] by (simp add: later)
  have split: "get_dcm_fileinfos walk dcmread inputdir =
      dcm_fileinfos_loop dcmread earlier ((root, the_dirs, the_filenames) # after)"
    unfolding get_dcm_fileinfos_def visited
    by (simp add: dcm_fileinfos_loop_append earlier)
  show ?thesis
  proof (cases "filter (\<lambda>x. endswith x ''.dcm'') the_filenames")
    case Nil
    then have "get_dcm_fileinfos walk dcmread inputdir = Inr (earlier @ [] @ later)"
      unfolding split by (simp add: rest)
    with Nil earlier later show ?thesis
      by (metis list.distinct(1))
  next
    case (Cons first siblings)
    have "dcmread (root @ ''/'' @ first) \<noteq> None"
      using readable Cons unfolding visited by simp
    then obtain the_dcm where the_dcm: "dcmread (root @ ''/'' @ first) = Some the_dcm"
      by blast
    have "get_dcm_fileinfos walk dcmread inputdir =
        Inr (earlier @ [dcm_fileinfo_of (root @ ''/'' @ first) the_dcm] @ later)"
      unfolding split using the_dcm by (simp add: Cons get_dcm_fileinfo_def rest)
    with Cons the_dcm earlier later show ?thesis
      by (metis list.distinct(1) list.inject)
  qed
qed

theorem dcm_walk_one_record_per_directory_witness:
  "get_dcm_fileinfos
     (\<lambda>d. [(''in'', [''seriesX'', ''notes''], [''brainA_ss_zmap.nii.gz'']),
            (''in/seriesX'', [], [''readme.txt'', ''scan1.dcm'', ''scan2.dcm'']),
            (''in/notes'', [], [''a.txt''])])
     (\<lambda>p. Some (\<lambda>a. if a = Keyword ''ProtocolName'' then Returns (Value ''brainA'')
                     else Raises))
     ''in'' =
   Inr [\<lparr>filename = ''in/seriesX/scan1.dcm'', prompt = ''brainA____'',
         base_filename = ''seriesX/scan1.dcm''\<rparr>]"
proof -
  let ?walk = "\<lambda>d::string. [(''in'', [''seriesX'', ''notes''], [''brainA_ss_zmap.nii.gz'']),
            (''in/seriesX'', [], [''readme.txt'', ''scan1.dcm'', ''scan2.dcm'']),
            (''in/notes'', [], [''a.txt''])]"
  let ?the_dcm = "\<lambda>a. if a = Keyword ''ProtocolName'' then Returns (Value ''brainA'')
                     else Raises"
  let ?dcmread = "\<lambda>p::string. Some ?the_dcm"
  have readable: "\<forall>(root, the_dirs, the_filenames) \<in> set (?walk ''in'').
      \<forall>first siblings.
      filter (\<lambda>x. endswith x ''.dcm'') the_filenames = first # siblings \<longrightarrow>
      ?dcmread (root @ ''/'' @ first) \<noteq> None"
    by simp
  have visited: "?walk ''in'' =
      [(''in'', [''seriesX'', ''notes''], [''brainA_ss_zmap.nii.gz''])]
      @ (''in/seriesX'', [], [''readme.txt'', ''scan1.dcm'', ''scan2.dcm''])
      # [(''in/notes'', [], [''a.txt''])]"
    by simp
  have dcm: "filter (\<lambda>x. endswith x ''.dcm'') [''readme.txt'', ''scan1.dcm'', ''scan2.dcm'']
      = [''scan1.dcm'', ''scan2.dcm'']"
    by (simp add: endswith_def suffix_to_prefix)
  from dcm_walk_one_record_per_directory
      [of ?walk "''in''" ?dcmread
          "[(''in'', [''seriesX'', ''notes''], [''brainA_ss_zmap.nii.gz''])]"
          "''in/seriesX''" "[]" "[''readme.txt'', ''scan1.dcm'', ''scan2.dcm'']"
          "[(''in/notes'', [], [''a.txt''])]", OF readable visited]
  obtain earlier contribution later where
    result: "get_dcm_fileinfos ?walk ?dcmread ''in'' = Inr (earlier @ contribution @ later)"
    and earlier: "dcm_fileinfos_loop ?dcmread []
        [(''in'', [''seriesX'', ''notes''], [''brainA_ss_zmap.nii.gz''])] = Inr earlier"
    and later: "dcm_fileinfos_loop ?dcmread [] [(''in/notes'', [], [''a.txt''])] = Inr later"
    and one: "\<forall>first siblings.
       filter (\<lambda>x. endswith x ''.dcm'') [''readme.txt'', ''scan1.dcm'', ''scan2.dcm'']
         = first # siblings \<longrightarrow>
       (\<exists>the_dcm. ?dcmread (''in/seriesX'' @ ''/'' @ first) = Some the_dcm
          \<and> contribution = [dcm_fileinfo_of (''in/seriesX'' @ ''/'' @ first) the_dcm])"
    by (elim exE conjE)
  from earlier have e: "earlier = []"
    by (simp add: endswith_def suffix_to_prefix)
  from later have l: "later = []"
    by (simp add: endswith_def suffix_to_prefix)
  from one [rule_format, OF dcm]
  have c: "contribution = [dcm_fileinfo_of ''in/seriesX/scan1.dcm'' ?the_dcm]"
    by auto
  show ?thesis
    unfolding result e l c
    by (simp add: dcm_fileinfo_of_def basename_def dirname_def dcm_prompt_def
          re_sub_char_def read_protocol_name_def read_or_empty_def fmt_def)
qed

text \<open>
  Reading the representative file is not guarded. Here the first directory holds a
  readable \<open>.dcm\<close> file and the second one that cannot be read: the inventory ends
  with the read error, and neither directory contributes a record.
\<close>

theorem dcm_walk_unreadable_representative:
  "filter (\<lambda>x. endswith x ''.dcm'') [''a.dcm''] = [''a.dcm'']
   \<and> filter (\<lambda>x. endswith x ''.dcm'') [''b.dcm'', ''c.dcm''] = [''b.dcm'', ''c.dcm'']
   \<and> get_dcm_fileinfos
       (\<lambda>d. [(''in'', [''s1'', ''s2''], []),
              (''in/s1'', [], [''a.dcm'']),
              (''in/s2'', [], [''b.dcm'', ''c.dcm''])])
       (\<lambda>p. if p = ''in/s2/b.dcm'' then None else Some (\<lambda>a. Raises))
       ''in''
     = Inl (DcmReadError ''in/s2/b.dcm'')"
  by (simp add: get_dcm_fileinfos_def get_dcm_fileinfo_def endswith_def suffix_to_prefix)

section \<open>Paths and the conversion calls\<close>

lemma basename_no_slash:
  assumes "CHR ''/'' \<notin> set p"
  shows "basename p = p"
proof -
  have "takeWhile (\<lambda>c. c \<noteq> CHR ''/'') (rev p) = rev p"
    using assms by (auto simp: takeWhile_eq_all_conv)
  then show ?thesis
    unfolding basename_def by (simp only: rev_rev_ident)
qed

lemma suffix_basename:
  assumes "suffix suf p" and "CHR ''/'' \<notin> set suf"
  shows "suffix suf (basename p)"
proof -
  from assms(1) obtain zs where zs: "p = zs @ suf"
    by (auto simp: suffix_def)
  have "takeWhile (\<lambda>c. c \<noteq> CHR ''/'') (rev suf @ rev zs) =
      rev suf @ takeWhile (\<lambda>c. c \<noteq> CHR ''/'') (rev zs)"
    using assms(2) by (intro takeWhile_append2) auto
  then have "basename p = rev (takeWhile (\<lambda>c. c \<noteq> CHR ''/'') (rev zs)) @ suf"
    by (simp add: basename_def zs)
  then show ?thesis
    by (simp add: suffix_def)
qed

lemma get_outdir_strip_suffix:
  assumes "endswith fname ''.nii.gz''"
  shows "get_outdir outputdir fname = outputdir @ ''/'' @ strip_suffix (basename fname) ''.nii.gz''"
    and "endswith (basename fname) ''.nii.gz''"
proof -
  have lit: "''.nii.gz'' \<noteq> []" "newline \<notin> set ''.nii.gz''"
    by (simp_all add: newline_def)
  from assms have "suffix ''.nii.gz'' (basename fname)"
    unfolding endswith_def by (rule suffix_basename) simp
  then show "endswith (basename fname) ''.nii.gz''"
    by (simp add: endswith_def)
  then show "get_outdir outputdir fname =
      outputdir @ ''/'' @ strip_suffix (basename fname) ''.nii.gz''"
    by (simp add: get_outdir_def strip_suffix_def endswith_def re_sub_lit_eol_char [OF lit]
          Let_def)
qed

lemma filename_get_nii_fileinfo: "filename (get_nii_fileinfo fname) = fname"
  by (simp add: get_nii_fileinfo_def)

lemma base_filename_get_nii_fileinfo: "base_filename (get_nii_fileinfo fname) = basename fname"
  by (simp add: get_nii_fileinfo_def)

lemma map_filename_get_nii_fileinfos:
  "map filename (get_nii_fileinfos listdir inputdir) =
     filter (\<lambda>x. endswith x ''.nii.gz'') (listdir inputdir)"
  by (simp add: get_nii_fileinfos_def filename_get_nii_fileinfo comp_def)

lemma get_nii_fileinfos_member:
  assumes "n \<in> set (get_nii_fileinfos listdir inputdir)"
  shows "filename n \<in> set (listdir inputdir) \<and> endswith (filename n) ''.nii.gz''
     \<and> base_filename n = basename (filename n)"
  using assms
  by (auto simp: get_nii_fileinfos_def filename_get_nii_fileinfo base_filename_get_nii_fileinfo)

lemma nii_dcm_pairs_member:
  assumes "(n, found) \<in> set (nii_dcm_pairs nii_fileinfos dcm_fileinfos)"
  shows "n \<in> set nii_fileinfos \<and> found \<noteq> None"
  using assms by (auto simp: nii_dcm_pairs_def valid_pairs_def pairs_def)

lemma convert_loop_all_found:
  assumes "\<forall>p \<in> set ps. snd p \<noteq> None"
  shows "convert_loop outputdir ps =
     Inr (map (\<lambda>p. \<lparr>nii_path = filename (fst p),
                      out_path = get_outdir outputdir (filename (fst p)),
                      modality = ''MR'',
                      ref_dcm_path = filename (the (snd p))\<rparr>) ps)"
  using assms
proof (induction ps)
  case Nil
  show ?case by simp
next
  case (Cons p ps)
  obtain n found where p: "p = (n, found)"
    by (cases p)
  with Cons.prems obtain d where d: "found = Some d"
    by auto
  from Cons show ?case
    by (simp add: p d Let_def)
qed

lemma main_calls:
  assumes "get_dcm_fileinfos walk dcmread inputdir = Inr dcm_fileinfos"
  shows "main listdir walk dcmread inputdir outputdir =
     Inr (map (\<lambda>p. \<lparr>nii_path = filename (fst p),
                      out_path = get_outdir outputdir (filename (fst p)),
                      modality = ''MR'',
                      ref_dcm_path = filename (the (snd p))\<rparr>)
            (nii_dcm_pairs (get_nii_fileinfos listdir inputdir) dcm_fileinfos))"
proof -
  have "\<forall>p \<in> set (nii_dcm_pairs (get_nii_fileinfos listdir inputdir) dcm_fileinfos).
      snd p \<noteq> None"
    by (auto dest: nii_dcm_pairs_member)
  then show ?thesis
    by (simp add: main_def assms convert_loop_all_found)
qed

text \<open>
  Claim C8. When the DICOM inventory returns, the driver returns one call for each matched
  pair, in order. The call carries the NIfTI record's path, the output root followed by a
  slash and the base name without its ending \<open>.nii.gz\<close> (every matched base name has that
  ending), the modality \<open>MR\<close>, and the path of the paired DICOM record.
\<close>

theorem conversion_call_per_pair:
  assumes "get_dcm_fileinfos walk dcmread inputdir = Inr dcm_fileinfos"
  shows "\<exists>calls. main listdir walk dcmread inputdir outputdir = Inr calls
     \<and> list_all2
         (\<lambda>call (nii_fileinfo, found).
            \<exists>dcm_fileinfo. found = Some dcm_fileinfo
              \<and> endswith (base_filename nii_fileinfo) ''.nii.gz''
              \<and> call = \<lparr>nii_path = filename nii_fileinfo,
                        out_path = outputdir @ ''/''
                          @ strip_suffix (base_filename nii_fileinfo) ''.nii.gz'',
                        modality = ''MR'',
                        ref_dcm_path = filename dcm_fileinfo\<rparr>)
         calls (nii_dcm_pairs (get_nii_fileinfos listdir inputdir) dcm_fileinfos)"
proof -
  let ?ps = "nii_dcm_pairs (get_nii_fileinfos listdir inputdir) dcm_fileinfos"
  have each: "\<exists>dcm_fileinfo. found = Some dcm_fileinfo
      \<and> endswith (base_filename n) ''.nii.gz''
      \<and> \<lparr>nii_path = filename n, out_path = get_outdir outputdir (filename n),
          modality = ''MR'', ref_dcm_path = filename (the found)\<rparr>
        = \<lparr>nii_path = filename n,
           out_path = outputdir @ ''/'' @ strip_suffix (base_filename n) ''.nii.gz'',
           modality = ''MR'', ref_dcm_path = filename dcm_fileinfo\<rparr>"
    if "(n, found) \<in> set ?ps" for n found
  proof -
    from that have n: "n \<in> set (get_nii_fileinfos listdir inputdir)" and f: "found \<noteq> None"
      by (auto dest: nii_dcm_pairs_member)
    from get_nii_fileinfos_member [OF n]
    have e: "endswith (filename n) ''.nii.gz''" and b: "base_filename n = basename (filename n)"
      by simp_all
    from f obtain d where "found = Some d"
      by auto
    with get_outdir_strip_suffix(1) [OF e, of outputdir] get_outdir_strip_suffix(2) [OF e] b
    show ?thesis
      by simp
  qed
  have "list_all2
         (\<lambda>call (nii_fileinfo, found).
            \<exists>dcm_fileinfo. found = Some dcm_fileinfo
              \<and> endswith (base_filename nii_fileinfo) ''.nii.gz''
              \<and> call = \<lparr>nii_path = filename nii_fileinfo,
                        out_path = outputdir @ ''/''
                          @ strip_suffix (base_filename nii_fileinfo) ''.nii.gz'',
                        modality = ''MR'',
                        ref_dcm_path = filename dcm_fileinfo\<rparr>)
         (map (\<lambda>p. \<lparr>nii_path = filename (fst p),
                      out_path = get_outdir outputdir (filename (fst p)),
                      modality = ''MR'',
                      ref_dcm_path = filename (the (snd p))\<rparr>) ?ps) ?ps"
    unfolding list_all2_map1
    by (rule list_all2_same [THEN iffD2]) (use each in \<open>auto simp: case_prod_beta\<close>)
  with main_calls [OF assms] show ?thesis
    by blast
qed

theorem conversion_call_per_pair_witness:
  "main (\<lambda>d. [''p_d_1_2_3_ss_zmap.nii.gz'', ''seriesX'', ''other.nii.gz''])
     (\<lambda>d. [(''in'', [''seriesX''], [''p_d_1_2_3_ss_zmap.nii.gz'', ''other.nii.gz'']),
            (''in/seriesX'', [], [''scan1.dcm'', ''scan2.dcm''])])
     (\<lambda>p. Some (\<lambda>a. if a = Keyword ''ProtocolName'' then Returns (Value ''p'')
                     else if a = Keyword ''SeriesDescription'' then Returns (Value ''d'')
                     else if a = Tag 0x08 0x20 then Returns (Value ''1'')
                     else if a = Tag 0x08 0x30 then Returns (Value ''2'')
                     else if a = Tag 0x20 0x11 then Returns (Value ''3'')
                     else Raises))
     ''in'' ''out'' =
   Inr [\<lparr>nii_path = ''p_d_1_2_3_ss_zmap.nii.gz'', out_path = ''out/p_d_1_2_3_ss_zmap'',
         modality = ''MR'', ref_dcm_path = ''in/seriesX/scan1.dcm''\<rparr>]"
proof -
  let ?listdir = "\<lambda>d::string. [''p_d_1_2_3_ss_zmap.nii.gz'', ''seriesX'', ''other.nii.gz'']"
  let ?walk = "\<lambda>d::string.
      [(''in'', [''seriesX''], [''p_d_1_2_3_ss_zmap.nii.gz'', ''other.nii.gz'']),
       (''in/seriesX'', [], [''scan1.dcm'', ''scan2.dcm''])]"
  let ?dcmread = "\<lambda>p::string.
      Some (\<lambda>a. if a = Keyword ''ProtocolName'' then Returns (Value ''p'')
                     else if a = Keyword ''SeriesDescription'' then Returns (Value ''d'')
                     else if a = Tag 0x08 0x20 then Returns (Value ''1'')
                     else if a = Tag 0x08 0x30 then Returns (Value ''2'')
                     else if a = Tag 0x20 0x11 then Returns (Value ''3'')
                     else Raises)"
  let ?d = "\<lparr>filename = ''in/seriesX/scan1.dcm'', prompt = ''p_d_1_2_3'',
      base_filename = ''seriesX/scan1.dcm''\<rparr>"
  let ?n = "\<lparr>filename = ''p_d_1_2_3_ss_zmap.nii.gz'', prompt = ''p_d_1_2_3'',
      base_filename = ''p_d_1_2_3_ss_zmap.nii.gz''\<rparr>"
  have lit: "''_ss_zmap.nii.gz'' \<noteq> []" "newline \<notin> set ''_ss_zmap.nii.gz''"
    by (simp_all add: newline_def)
  have dcm: "get_dcm_fileinfos ?walk ?dcmread ''in'' = Inr [?d]"
    by (simp add: get_dcm_fileinfos_def endswith_def suffix_to_prefix get_dcm_fileinfo_def
          dcm_fileinfo_of_def basename_def dirname_def dcm_prompt_def re_sub_char_def
          read_protocol_name_def read_or_empty_def fmt_def)
  have ps: "nii_dcm_pairs (get_nii_fileinfos ?listdir ''in'') [?d] = [(?n, Some ?d)]"
    by (simp add: nii_dcm_pairs_def valid_pairs_def pairs_def dcm_fileinfo_map_def
          get_nii_fileinfos_def get_nii_fileinfo_def endswith_def suffix_to_prefix
          re_sub_lit_eol_char [OF lit] basename_def newline_def)
  from conversion_call_per_pair
      [where walk = ?walk and dcmread = ?dcmread and inputdir = "''in''"
         and dcm_fileinfos = "[?d]" and listdir = ?listdir and outputdir = "''out''",
       OF dcm]
  obtain calls where
    m: "main ?listdir ?walk ?dcmread ''in'' ''out'' = Inr calls"
    and l: "list_all2
         (\<lambda>call (nii_fileinfo, found).
            \<exists>dcm_fileinfo. found = Some dcm_fileinfo
              \<and> endswith (base_filename nii_fileinfo) ''.nii.gz''
              \<and> call = \<lparr>nii_path = filename nii_fileinfo,
                        out_path = ''out'' @ ''/''
                          @ strip_suffix (base_filename nii_fileinfo) ''.nii.gz'',
                        modality = ''MR'',
                        ref_dcm_path = filename dcm_fileinfo\<rparr>)
         calls (nii_dcm_pairs (get_nii_fileinfos ?listdir ''in'') [?d])"
    by (elim exE conjE)
  from l have "calls = [\<lparr>nii_path = ''p_d_1_2_3_ss_zmap.nii.gz'',
      out_path = ''out/p_d_1_2_3_ss_zmap'', modality = ''MR'',
      ref_dcm_path = ''in/seriesX/scan1.dcm''\<rparr>]"
    unfolding ps by (auto simp: list_all2_Cons2 strip_suffix_def suffix_to_prefix)
  with m show ?thesis
    by simp
qed

text \<open>
  Claim C9. The paths of the NIfTI records are the entries of the listing that end in
  \<open>.nii.gz\<close>, as listed. When no entry contains a slash, the base name of every record is
  its path. The NIfTI paths given to the conversion routine are the paths of the matched
  records, hence entries of the listing. The path of every DICOM record is the root of a
  walked directory, a slash, and the first entry of that directory ending in \<open>.dcm\<close>.
\<close>

theorem nii_path_bare_dcm_path_joined:
  "map filename (get_nii_fileinfos listdir inputdir) =
     filter (\<lambda>x. endswith x ''.nii.gz'') (listdir inputdir)
   \<and> ((\<forall>x \<in> set (listdir inputdir). CHR ''/'' \<notin> set x) \<longrightarrow>
        map base_filename (get_nii_fileinfos listdir inputdir) =
          map filename (get_nii_fileinfos listdir inputdir))
   \<and> (get_dcm_fileinfos walk dcmread inputdir = Inr dcm_fileinfos \<longrightarrow>
        (\<exists>calls. main listdir walk dcmread inputdir outputdir = Inr calls
           \<and> map nii_path calls =
               map (\<lambda>p. filename (fst p))
                 (nii_dcm_pairs (get_nii_fileinfos listdir inputdir) dcm_fileinfos)
           \<and> set (map nii_path calls) \<subseteq> set (listdir inputdir))
        \<and> (\<forall>d \<in> set dcm_fileinfos.
             \<exists>(root, the_dirs, the_filenames) \<in> set (walk inputdir). \<exists>first siblings.
               filter (\<lambda>x. endswith x ''.dcm'') the_filenames = first # siblings
               \<and> filename d = root @ ''/'' @ first))"
proof (intro conjI impI)
  show "map filename (get_nii_fileinfos listdir inputdir) =
     filter (\<lambda>x. endswith x ''.nii.gz'') (listdir inputdir)"
    by (rule map_filename_get_nii_fileinfos)
next
  assume bare: "\<forall>x \<in> set (listdir inputdir). CHR ''/'' \<notin> set x"
  have "base_filename n = filename n" if "n \<in> set (get_nii_fileinfos listdir inputdir)" for n
  proof -
    from get_nii_fileinfos_member [OF that] bare
    have "CHR ''/'' \<notin> set (filename n)" and "base_filename n = basename (filename n)"
      by simp_all
    then show ?thesis
      by (simp add: basename_no_slash)
  qed
  then show "map base_filename (get_nii_fileinfos listdir inputdir) =
          map filename (get_nii_fileinfos listdir inputdir)"
    by simp
next
  assume dcm: "get_dcm_fileinfos walk dcmread inputdir = Inr dcm_fileinfos"
  let ?ps = "nii_dcm_pairs (get_nii_fileinfos listdir inputdir) dcm_fileinfos"
  have "filename (fst p) \<in> set (listdir inputdir)" if "p \<in> set ?ps" for p
  proof -
    from that have "fst p \<in> set (get_nii_fileinfos listdir inputdir)"
      using nii_dcm_pairs_member [of "fst p" "snd p"] by simp
    then show ?thesis
      by (simp add: get_nii_fileinfos_member)
  qed
  then have sub: "set (map (\<lambda>p. filename (fst p)) ?ps) \<subseteq> set (listdir inputdir)"
    by auto
  let ?calls = "map (\<lambda>p. \<lparr>nii_path = filename (fst p),
                      out_path = get_outdir outputdir (filename (fst p)),
                      modality = ''MR'',
                      ref_dcm_path = filename (the (snd p))\<rparr>) ?ps"
  have paths: "map nii_path ?calls = map (\<lambda>p. filename (fst p)) ?ps"
    by (simp add: comp_def)
  have "main listdir walk dcmread inputdir outputdir = Inr ?calls
           \<and> map nii_path ?calls = map (\<lambda>p. filename (fst p)) ?ps
           \<and> set (map nii_path ?calls) \<subseteq> set (listdir inputdir)"
    using main_calls [OF dcm] paths sub by (simp only: simp_thms)
  then show "\<exists>calls. main listdir walk dcmread inputdir outputdir = Inr calls
           \<and> map nii_path calls = map (\<lambda>p. filename (fst p)) ?ps
           \<and> set (map nii_path calls) \<subseteq> set (listdir inputdir)"
    by (rule exI)
  show "\<forall>d \<in> set dcm_fileinfos.
             \<exists>(root, the_dirs, the_filenames) \<in> set (walk inputdir). \<exists>first siblings.
               filter (\<lambda>x. endswith x ''.dcm'') the_filenames = first # siblings
               \<and> filename d = root @ ''/'' @ first"
  proof
    fix d
    assume "d \<in> set dcm_fileinfos"
    with dcm_fileinfos_loop_filenames [of dcmread "[]" "walk inputdir" dcm_fileinfos d] dcm
    show "\<exists>(root, the_dirs, the_filenames) \<in> set (walk inputdir). \<exists>first siblings.
               filter (\<lambda>x. endswith x ''.dcm'') the_filenames = first # siblings
               \<and> filename d = root @ ''/'' @ first"
      by (simp add: get_dcm_fileinfos_def)
  qed
qed

theorem nii_path_bare_dcm_path_joined_witness:
  "map filename
     (get_nii_fileinfos (\<lambda>d. [''p_d_1_2_3_ss_zmap.nii.gz'', ''seriesX'', ''other.nii.gz''])
        ''in'')
     = [''p_d_1_2_3_ss_zmap.nii.gz'', ''other.nii.gz'']
   \<and> map base_filename
     (get_nii_fileinfos (\<lambda>d. [''p_d_1_2_3_ss_zmap.nii.gz'', ''seriesX'', ''other.nii.gz''])
        ''in'')
     = [''p_d_1_2_3_ss_zmap.nii.gz'', ''other.nii.gz'']
   \<and> map_sum id (map nii_path)
      (main (\<lambda>d. [''p_d_1_2_3_ss_zmap.nii.gz'', ''seriesX'', ''other.nii.gz''])
         (\<lambda>d. [(''in'', [''seriesX''], [''p_d_1_2_3_ss_zmap.nii.gz'', ''other.nii.gz'']),
                (''in/seriesX'', [], [''scan1.dcm'', ''scan2.dcm''])])
         (\<lambda>p. Some (\<lambda>a. if a = Keyword ''ProtocolName'' then Returns (Value ''p'')
                         else if a = Keyword ''SeriesDescription'' then Returns (Value ''d'')
                         else if a = Tag 0x08 0x20 then Returns (Value ''1'')
                         else if a = Tag 0x08 0x30 then Returns (Value ''2'')
                         else if a = Tag 0x20 0x11 then Returns (Value ''3'')
                         else Raises))
         ''in'' ''out'')
     = Inr [''p_d_1_2_3_ss_zmap.nii.gz'']
   \<and> map_sum id (map filename)
      (get_dcm_fileinfos
         (\<lambda>d. [(''in'', [''seriesX''], [''p_d_1_2_3_ss_zmap.nii.gz'', ''other.nii.gz'']),
                (''in/seriesX'', [], [''scan1.dcm'', ''scan2.dcm''])])
         (\<lambda>p. Some (\<lambda>a. if a = Keyword ''ProtocolName'' then Returns (Value ''p'')
                         else if a = Keyword ''SeriesDescription'' then Returns (Value ''d'')
                         else if a = Tag 0x08 0x20 then Returns (Value ''1'')
                         else if a = Tag 0x08 0x30 then Returns (Value ''2'')
                         else if a = Tag 0x20 0x11 then Returns (Value ''3'')
                         else Raises))
         ''in'')
     = Inr [''in/seriesX/scan1.dcm'']"
proof -
  let ?listdir = "\<lambda>d::string. [''p_d_1_2_3_ss_zmap.nii.gz'', ''seriesX'', ''other.nii.gz'']"
  let ?walk = "\<lambda>d::string.
      [(''in'', [''seriesX''], [''p_d_1_2_3_ss_zmap.nii.gz'', ''other.nii.gz'']),
       (''in/seriesX'', [], [''scan1.dcm'', ''scan2.dcm''])]"
  let ?dcmread = "\<lambda>p::string.
      Some (\<lambda>a. if a = Keyword ''ProtocolName'' then Returns (Value ''p'')
                     else if a = Keyword ''SeriesDescription'' then Returns (Value ''d'')
                     else if a = Tag 0x08 0x20 then Returns (Value ''1'')
                     else if a = Tag 0x08 0x30 then Returns (Value ''2'')
                     else if a = Tag 0x20 0x11 then Returns (Value ''3'')
                     else Raises)"
  let ?d = "\<lparr>filename = ''in/seriesX/scan1.dcm'', prompt = ''p_d_1_2_3'',
      base_filename = ''seriesX/scan1.dcm''\<rparr>"
  let ?n = "\<lparr>filename = ''p_d_1_2_3_ss_zmap.nii.gz'', prompt = ''p_d_1_2_3'',
      base_filename = ''p_d_1_2_3_ss_zmap.nii.gz''\<rparr>"
  note claim = nii_path_bare_dcm_path_joined
      [where listdir = ?listdir and inputdir = "''in''" and walk = ?walk
         and dcmread = ?dcmread and dcm_fileinfos = "[?d]" and outputdir = "''out''"]
  have lit: "''_ss_zmap.nii.gz'' \<noteq> []" "newline \<notin> set ''_ss_zmap.nii.gz''"
    by (simp_all add: newline_def)
  have bare: "\<forall>x \<in> set (?listdir ''in''). CHR ''/'' \<notin> set x"
    by simp
  have dcm: "get_dcm_fileinfos ?walk ?dcmread ''in'' = Inr [?d]"
    by (simp add: get_dcm_fileinfos_def endswith_def suffix_to_prefix get_dcm_fileinfo_def
          dcm_fileinfo_of_def basename_def dirname_def dcm_prompt_def re_sub_char_def
          read_protocol_name_def read_or_empty_def fmt_def)
  have ps: "nii_dcm_pairs (get_nii_fileinfos ?listdir ''in'') [?d] = [(?n, Some ?d)]"
    by (simp add: nii_dcm_pairs_def valid_pairs_def pairs_def dcm_fileinfo_map_def
          get_nii_fileinfos_def get_nii_fileinfo_def endswith_def suffix_to_prefix
          re_sub_lit_eol_char [OF lit] basename_def newline_def)
  have names: "map filename (get_nii_fileinfos ?listdir ''in'') =
      [''p_d_1_2_3_ss_zmap.nii.gz'', ''other.nii.gz'']"
    using claim [THEN conjunct1] by (simp add: endswith_def suffix_to_prefix)
  have base: "map base_filename (get_nii_fileinfos ?listdir ''in'') =
      [''p_d_1_2_3_ss_zmap.nii.gz'', ''other.nii.gz'']"
    using claim [THEN conjunct2, THEN conjunct1, THEN mp, OF bare] names
    by (simp only:)
  from claim [THEN conjunct2, THEN conjunct2, THEN mp, OF dcm, THEN conjunct1]
  obtain calls where
    m: "main ?listdir ?walk ?dcmread ''in'' ''out'' = Inr calls"
    and p: "map nii_path calls =
      map (\<lambda>p. filename (fst p)) (nii_dcm_pairs (get_nii_fileinfos ?listdir ''in'') [?d])"
    by (elim exE conjE)
  from p have "map nii_path calls = [''p_d_1_2_3_ss_zmap.nii.gz'']"
    unfolding ps by simp
  with m have calls: "map_sum id (map nii_path) (main ?listdir ?walk ?dcmread ''in'' ''out'')
      = Inr [''p_d_1_2_3_ss_zmap.nii.gz'']"
    by simp
  have paths: "map_sum id (map filename) (get_dcm_fileinfos ?walk ?dcmread ''in'')
      = Inr [''in/seriesX/scan1.dcm'']"
    unfolding dcm by simp
  from names base calls paths show ?thesis
    by (intro conjI)
qed

end
